theory Spec2Isabelle
  imports Main "HOL-Library.Word"
begin

unbundle bit_operations_syntax

section \<open>Buffers\<close>

text \<open>
  The formatting functions of \<^verbatim>\<open>c4/format.hpp\<close> write through \<^verbatim>\<open>substr\<close>, a
  (pointer, length) view over storage owned by the caller. Storage is an explicit
  store from addresses to bytes; a view is a start address and a length. The
  default-constructed \<^verbatim>\<open>substr{}\<close> is the null pointer with length 0, and
  \<^verbatim>\<open>buf.sub(n)\<close> is the view from offset \<open>n\<close> to the end of \<open>buf\<close> (the source only
  calls it with \<open>n \<le> buf.len\<close>).

  Sizes are \<^verbatim>\<open>size_t\<close> in the source, an unsigned 64-bit integer. They are natural
  numbers here, and every sum the source forms in \<^verbatim>\<open>size_t\<close> is reduced modulo
  \<open>2 ^ 64\<close> as its addition wraps around.
\<close>

type_synonym mem = "nat \<Rightarrow> char"

record substr =
  str :: nat
  len :: nat

definition substr_null :: substr where
  "substr_null = \<lparr>str = 0, len = 0\<rparr>"

definition sub :: "substr \<Rightarrow> nat \<Rightarrow> substr" where
  "sub buf n = \<lparr>str = str buf + n, len = len buf - n\<rparr>"

text \<open>The bytes a view covers, in order.\<close>

definition contents :: "mem \<Rightarrow> substr \<Rightarrow> string" where
  "contents m buf = map m [str buf ..< str buf + len buf]"

definition size_t_wrap :: "nat \<Rightarrow> nat" where
  "size_t_wrap n = n mod 2 ^ 64"

definition mem0 :: mem where
  "mem0 = (\<lambda>_. CHR 0x00)"

section \<open>The customization point\<close>

text \<open>
  \<^verbatim>\<open>to_chars(buf, v)\<close> is overloaded per argument type and returns the number of
  characters \<open>v\<close> needs. The engines are templates over it, so it is a parameter
  here: a function from the store, the view and the argument to the new store and
  the size. Arguments of different C++ types are the alternatives of one HOL type.
  Arguments are values: they do not alias the destination (the source marks them
  \<^verbatim>\<open>C4_RESTRICT\<close>).

  \<^verbatim>\<open>from_chars_first(buf, &v)\<close> reads from a read-only view, which is its text here.
  It returns the number of characters read, or \<^verbatim>\<open>csubstr::npos\<close>, which is \<open>None\<close>;
  the variable it was given comes back possibly changed.
\<close>

type_synonym 'a to_chars_fn = "mem \<Rightarrow> substr \<Rightarrow> 'a \<Rightarrow> mem \<times> nat"

type_synonym 'a from_chars_fn = "string \<Rightarrow> 'a \<Rightarrow> 'a \<times> nat option"

text \<open>
  Modelled from the spec: \<^verbatim>\<open>to_chars(substr, csubstr)\<close> of \<^verbatim>\<open>c4/charconv.hpp\<close>, which is
  not among the sources. It copies as much of the text as the view holds and
  returns the length of the whole text, so that it "writes at most
  min(buffer.length, required_size) characters into the buffer; never more".
\<close>

definition to_chars_csubstr :: "mem \<Rightarrow> substr \<Rightarrow> string \<Rightarrow> mem \<times> nat" where
  "to_chars_csubstr m buf v =
     (let n = (if len buf < length v then len buf else length v)
      in (\<lambda>i. if str buf \<le> i \<and> i < str buf + n then v ! (i - str buf) else m i,
          length v))"

text \<open>
  Modelled from the spec: \<^verbatim>\<open>csubstr::find("{}")\<close> of \<^verbatim>\<open>c4/substr.hpp\<close>, which is not
  among the sources: the offset of the first two-character placeholder token,
  scanning left to right, or \<^verbatim>\<open>npos\<close>.
\<close>

fun find_fmt :: "string \<Rightarrow> nat option" where
  "find_fmt (c # d # cs) =
     (if c = CHR ''{'' \<and> d = CHR ''}'' then Some 0
      else map_option Suc (find_fmt (d # cs)))"
| "find_fmt _ = None"

section \<open>Serializing: cat, catsep, format\<close>

text \<open>
  Each function follows its C++ template line by line; the variadic pack
  \<^verbatim>\<open>more...\<close> is the list \<open>args\<close>, and the overload on the empty pack is the
  equation for \<open>[]\<close>.
\<close>

fun cat :: "'a to_chars_fn \<Rightarrow> mem \<Rightarrow> substr \<Rightarrow> 'a list \<Rightarrow> mem \<times> nat" where
  "cat tc m buf [] = (m, 0)"
| "cat tc m buf (a # args) =
     (let (m1, num) = tc m buf a;
          buf1 = (if len buf \<ge> num then sub buf num else substr_null);
          (m2, rest) = cat tc m1 buf1 args
      in (m2, size_t_wrap (num + rest)))"

fun catsep_more :: "'a to_chars_fn \<Rightarrow> mem \<Rightarrow> substr \<Rightarrow> 'a \<Rightarrow> 'a list \<Rightarrow> mem \<times> nat" where
  "catsep_more tc m buf sep [] = (m, 0)"
| "catsep_more tc m buf sep (a # args) =
     (let (m1, ret) = tc m buf sep;
          num = ret;
          buf1 = (if len buf \<ge> ret then sub buf ret else substr_null);
          (m2, ret2) = tc m1 buf1 a;
          num2 = size_t_wrap (num + ret2);
          buf2 = (if len buf1 \<ge> ret2 then sub buf1 ret2 else substr_null);
          (m3, ret3) = catsep_more tc m2 buf2 sep args
      in (m3, size_t_wrap (num2 + ret3)))"

text \<open>\<^verbatim>\<open>catsep\<close> takes the separator and at least one argument.\<close>

definition catsep :: "'a to_chars_fn \<Rightarrow> mem \<Rightarrow> substr \<Rightarrow> 'a \<Rightarrow> 'a \<Rightarrow> 'a list \<Rightarrow> mem \<times> nat" where
  "catsep tc m buf sep a args =
     (let (m1, num) = tc m buf a;
          buf1 = (if len buf \<ge> num then sub buf num else substr_null);
          (m2, rest) = catsep_more tc m1 buf1 sep args
      in (m2, size_t_wrap (num + rest)))"

fun format :: "'a to_chars_fn \<Rightarrow> mem \<Rightarrow> substr \<Rightarrow> string \<Rightarrow> 'a list \<Rightarrow> mem \<times> nat" where
  "format tc m buf fmt [] = to_chars_csubstr m buf fmt"
| "format tc m buf fmt (a # args) =
     (case find_fmt fmt of
        None \<Rightarrow> format tc m buf fmt []
      | Some pos \<Rightarrow>
          (let (m1, num) = to_chars_csubstr m buf (take pos fmt);
               out = num;
               buf1 = (if len buf \<ge> num then sub buf num else substr_null);
               (m2, num2) = tc m1 buf1 a;
               out2 = size_t_wrap (out + num2);
               buf2 = (if len buf1 \<ge> num2 then sub buf1 num2 else substr_null);
               (m3, num3) = format tc m2 buf2 (drop (pos + 2) fmt) args
           in (m3, size_t_wrap (out2 + num3))))"

subsection \<open>The shapes that return a view\<close>

text \<open>
  \<^verbatim>\<open>cat_sub\<close>, \<^verbatim>\<open>catsep_sub\<close> and \<^verbatim>\<open>format_sub\<close> run the engine, then
  \<^verbatim>\<open>C4_CHECK(sz <= buf.len)\<close>, then return the view \<^verbatim>\<open>{buf.str, sz <= buf.len ? sz : buf.len}\<close>.

  The macros \<^verbatim>\<open>C4_CHECK\<close> and \<^verbatim>\<open>C4_ASSERT_MSG\<close> are defined in \<^verbatim>\<open>c4/error.hpp\<close>, which is
  not among the sources. A check whose condition is false hands the error to the
  library's error handler. Whether that handler comes back is not decided by the
  sources, so it is a parameter of the three functions: with \<open>handler_returns\<close>
  the function goes on to its return statement, and without it the call ends in
  the error, the \<open>Inl\<close> branch of the result.
\<close>

datatype error = CheckFailed | AssertFailed

definition cat_sub ::
  "bool \<Rightarrow> 'a to_chars_fn \<Rightarrow> mem \<Rightarrow> substr \<Rightarrow> 'a list \<Rightarrow> error + mem \<times> substr" where
  "cat_sub handler_returns tc m buf args =
     (let (m1, sz) = cat tc m buf args
      in if \<not> sz \<le> len buf \<and> \<not> handler_returns then Inl CheckFailed
         else Inr (m1, \<lparr>str = str buf, len = (if sz \<le> len buf then sz else len buf)\<rparr>))"

definition catsep_sub ::
  "bool \<Rightarrow> 'a to_chars_fn \<Rightarrow> mem \<Rightarrow> substr \<Rightarrow> 'a \<Rightarrow> 'a \<Rightarrow> 'a list \<Rightarrow> error + mem \<times> substr" where
  "catsep_sub handler_returns tc m buf sep a args =
     (let (m1, sz) = catsep tc m buf sep a args
      in if \<not> sz \<le> len buf \<and> \<not> handler_returns then Inl CheckFailed
         else Inr (m1, \<lparr>str = str buf, len = (if sz \<le> len buf then sz else len buf)\<rparr>))"

definition format_sub ::
  "bool \<Rightarrow> 'a to_chars_fn \<Rightarrow> mem \<Rightarrow> substr \<Rightarrow> string \<Rightarrow> 'a list \<Rightarrow> error + mem \<times> substr" where
  "format_sub handler_returns tc m buf fmt args =
     (let (m1, sz) = format tc m buf fmt args
      in if \<not> sz \<le> len buf \<and> \<not> handler_returns then Inl CheckFailed
         else Inr (m1, \<lparr>str = str buf, len = (if sz \<le> len buf then sz else len buf)\<rparr>))"

section \<open>Parsing: uncat, uncatsep, unformat\<close>

text \<open>
  The output arguments are passed by reference in the source; here the list of
  variables goes in and comes back. A read-only view is its text: \<^verbatim>\<open>buf.len\<close> is
  \<open>length buf\<close>, \<^verbatim>\<open>buf.sub(n)\<close> is \<open>drop n buf\<close>, and \<^verbatim>\<open>substr{}\<close> is \<open>[]\<close>.
\<close>

fun uncat :: "'a from_chars_fn \<Rightarrow> string \<Rightarrow> 'a list \<Rightarrow> 'a list \<times> nat option" where
  "uncat fc buf [] = ([], Some 0)"
| "uncat fc buf (a # args) =
     (case fc buf a of
        (a', None) \<Rightarrow> (a' # args, None)
      | (a', Some out) \<Rightarrow>
          (let buf1 = (if length buf \<ge> out then drop out buf else [])
           in case uncat fc buf1 args of
                (args', None) \<Rightarrow> (a' # args', None)
              | (args', Some num) \<Rightarrow> (a' # args', Some (out + num))))"

text \<open>The separator is read through a non-const reference too, so it is returned as well.\<close>

fun uncatsep_more ::
  "'a from_chars_fn \<Rightarrow> string \<Rightarrow> 'a \<Rightarrow> 'a list \<Rightarrow> 'a \<times> 'a list \<times> nat option" where
  "uncatsep_more fc buf sep [] = (sep, [], Some 0)"
| "uncatsep_more fc buf sep (a # args) =
     (case fc buf sep of
        (sep1, None) \<Rightarrow> (sep1, a # args, None)
      | (sep1, Some ret) \<Rightarrow>
          (let num = ret;
               buf1 = (if length buf \<ge> ret then drop ret buf else [])
           in case fc buf1 a of
                (a', None) \<Rightarrow> (sep1, a' # args, None)
              | (a', Some ret2) \<Rightarrow>
                  (let num2 = num + ret2;
                       buf2 = (if length buf1 \<ge> ret2 then drop ret2 buf1 else [])
                   in case uncatsep_more fc buf2 sep1 args of
                        (sep2, args', None) \<Rightarrow> (sep2, a' # args', None)
                      | (sep2, args', Some ret3) \<Rightarrow> (sep2, a' # args', Some (num2 + ret3)))))"

definition uncatsep ::
  "'a from_chars_fn \<Rightarrow> string \<Rightarrow> 'a \<Rightarrow> 'a \<Rightarrow> 'a list \<Rightarrow> 'a \<times> 'a list \<times> nat option" where
  "uncatsep fc buf sep a args =
     (case fc buf a of
        (a', None) \<Rightarrow> (sep, a' # args, None)
      | (a', Some ret) \<Rightarrow>
          (let num = ret;
               buf1 = (if length buf \<ge> ret then drop ret buf else [])
           in case uncatsep_more fc buf1 sep args of
                (sep1, args', None) \<Rightarrow> (sep1, a' # args', None)
              | (sep1, args', Some ret2) \<Rightarrow> (sep1, a' # args', Some (num + ret2))))"

fun unformat :: "'a from_chars_fn \<Rightarrow> string \<Rightarrow> string \<Rightarrow> 'a list \<Rightarrow> 'a list \<times> nat option" where
  "unformat fc buf fmt [] = ([], Some 0)"
| "unformat fc buf fmt (a # args) =
     (case find_fmt fmt of
        None \<Rightarrow> (a # args, Some 0)
      | Some pos \<Rightarrow>
          (let num = pos;
               out = num;
               buf1 = (if length buf \<ge> num then drop num buf else [])
           in case fc buf1 a of
                (a', None) \<Rightarrow> (a' # args, None)
              | (a', Some num2) \<Rightarrow>
                  (let out2 = out + num2;
                       buf2 = (if length buf1 \<ge> num2 then drop num2 buf1 else [])
                   in case unformat fc buf2 (drop (pos + 2) fmt) args of
                        (args', None) \<Rightarrow> (a' # args', None)
                      | (args', Some num3) \<Rightarrow> (a' # args', Some (out2 + num3)))))"

section \<open>Resizable containers: catrs, catseprs\<close>

text \<open>
  Modelled from the spec: the resizable store, "exposing current size, resize to
  N, and view of underlying storage" (\<^verbatim>\<open>to_substr\<close>, \<^verbatim>\<open>resize\<close> and the container
  type are not among the sources). A container is the address of its storage and
  its size; \<^verbatim>\<open>to_substr\<close> views the whole of it; \<^verbatim>\<open>resize\<close> sets the size and
  value-initialises the characters it adds. The address stands for the container's
  storage wherever an allocator puts it.
\<close>

record container =
  cdata :: nat
  csize :: nat

definition to_substr :: "container \<Rightarrow> substr" where
  "to_substr cont = \<lparr>str = cdata cont, len = csize cont\<rparr>"

definition resize :: "mem \<Rightarrow> container \<Rightarrow> nat \<Rightarrow> mem \<times> container" where
  "resize m cont n =
     ((\<lambda>i. if cdata cont + csize cont \<le> i \<and> i < cdata cont + n then CHR 0x00 else m i),
      cont\<lparr>csize := n\<rparr>)"



partial_function (option) catseprs_retry ::
  "'a to_chars_fn \<Rightarrow> 'a \<Rightarrow> 'a \<Rightarrow> 'a list \<Rightarrow> mem \<Rightarrow> container \<Rightarrow> (mem \<times> container) option" where
  "catseprs_retry tc sep a args m cont =
     (let buf = to_substr cont;
          (m1, ret) = catsep tc m buf sep a args;
          (m2, cont2) = resize m1 cont ret
      in if ret > len buf then catseprs_retry tc sep a args m2 cont2
         else Some (m2, cont2))"

text \<open>
  \<^verbatim>\<open>catseprs(cont, sep)\<close>, with no argument after the separator, is an overload of
  its own that returns at once.
\<close>

fun catseprs ::
  "'a to_chars_fn \<Rightarrow> mem \<Rightarrow> container \<Rightarrow> 'a \<Rightarrow> 'a list \<Rightarrow> (mem \<times> container) option" where
  "catseprs tc m cont sep [] = Some (m, cont)"
| "catseprs tc m cont sep (a # args) = catseprs_retry tc sep a args m cont"

section \<open>Wrappers\<close>

subsection \<open>fmt::boolalpha\<close>

text \<open>
  \<^verbatim>\<open>boolalpha_<T>\<close> stores \<^verbatim>\<open>val_ ? true : false\<close>. For an integer type \<open>T\<close> of any
  width the conversion to \<^verbatim>\<open>bool\<close> is the test against zero.
\<close>

record boolalpha_ =
  val :: bool
  strict_read :: bool

definition boolalpha :: "'w::len word \<Rightarrow> bool \<Rightarrow> boolalpha_" where
  "boolalpha val0 strict_read0 =
     \<lparr>val = (if val0 \<noteq> 0 then True else False), strict_read = strict_read0\<rparr>"

definition to_chars_boolalpha :: "mem \<Rightarrow> substr \<Rightarrow> boolalpha_ \<Rightarrow> mem \<times> nat" where
  "to_chars_boolalpha m buf fmt = to_chars_csubstr m buf (if val fmt then ''true'' else ''false'')"

subsection \<open>fmt::raw, fmt::craw\<close>

text \<open>
  \<^verbatim>\<open>raw_wrapper_<T>\<close> is a blob (pointer and length) with an alignment of type
  \<^verbatim>\<open>size_t\<close>, a 64-bit word. Its constructor asserts that the alignment is positive
  and has no bit in common with its predecessor.
\<close>

record raw_wrapper_ =
  blob :: substr
  alignment :: "64 word"

definition raw_wrapper_ctor :: "substr \<Rightarrow> 64 word \<Rightarrow> error + raw_wrapper_" where
  "raw_wrapper_ctor data alignment0 =
     (if alignment0 > 0 \<and> (alignment0 AND (alignment0 - 1)) = 0
      then Inr \<lparr>blob = data, alignment = alignment0\<rparr>
      else Inl AssertFailed)"

definition raw :: "substr \<Rightarrow> 64 word \<Rightarrow> error + raw_wrapper_" where
  "raw data alignment0 = raw_wrapper_ctor data alignment0"

definition craw :: "substr \<Rightarrow> 64 word \<Rightarrow> error + raw_wrapper_" where
  "craw data alignment0 = raw_wrapper_ctor data alignment0"

section \<open>Argument types used in the examples\<close>

text \<open>
  Modelled from the spec: the \<^verbatim>\<open>to_chars\<close> and \<^verbatim>\<open>from_chars_first\<close> overloads for
  strings and integers (\<^verbatim>\<open>c4/charconv.hpp\<close>, not among the sources), which the spec
  calls "the numeric-to-text/text-to-numeric primitives for integers". An integer
  is written in decimal and read back from the leading span of decimal digits.
\<close>

definition digit_char :: "nat \<Rightarrow> char" where
  "digit_char d = ''0123456789'' ! d"

fun utoa :: "nat \<Rightarrow> string" where
  "utoa n = (if n < 10 then [digit_char n] else utoa (n div 10) @ [digit_char (n mod 10)])"

declare utoa.simps [simp del]

definition itoa :: "int \<Rightarrow> string" where
  "itoa i = (if i < 0 then CHR ''-'' # utoa (nat (- i)) else utoa (nat i))"

datatype arg = Str string | Num int

fun arg_text :: "arg \<Rightarrow> string" where
  "arg_text (Str s) = s"
| "arg_text (Num i) = itoa i"

definition to_chars_arg :: "arg to_chars_fn" where
  "to_chars_arg m buf a = to_chars_csubstr m buf (arg_text a)"

definition to_chars_uint :: "nat to_chars_fn" where
  "to_chars_uint m buf v = to_chars_csubstr m buf (utoa v)"

definition is_digit :: "char \<Rightarrow> bool" where
  "is_digit c \<longleftrightarrow> (48::nat) \<le> of_char c \<and> of_char c \<le> (57::nat)"

definition atou :: "string \<Rightarrow> nat" where
  "atou s = foldl (\<lambda>acc c. acc * 10 + (of_char c - 48)) 0 s"

definition from_chars_first_uint :: "nat from_chars_fn" where
  "from_chars_first_uint buf v =
     (let span = takeWhile is_digit buf
      in if span = [] then (v, None) else (atou span, Some (length span)))"

text \<open>
  Modelled from the spec: the read of a single character, which is the first
  character of the input.
\<close>

definition from_chars_first_char :: "char from_chars_fn" where
  "from_chars_first_char buf v = (case buf of [] \<Rightarrow> (v, None) | c # _ \<Rightarrow> (c, Some 1))"

text \<open>
  A customization point of the kind the specification leaves open ("any type may
  supply its own implementation"): the argument is a number of characters and the
  character to repeat, and it is written only into a view that holds all of it, as
  a copy of raw bytes is. The size it returns is the number of characters.
\<close>

definition to_chars_fill :: "(nat \<times> char) to_chars_fn" where
  "to_chars_fill m buf a =
     (if fst a \<le> len buf
      then (\<lambda>i. if str buf \<le> i \<and> i < str buf + fst a then snd a else m i)
      else m,
      fst a)"

section \<open>Properties of a serializer\<close>

text \<open>
  The sizing contract of one write operation \<open>f\<close>: the size it returns is the same
  for every destination; it changes no byte outside the view it was given; and
  whenever the view holds the size it returns, the bytes it leaves in the first
  that many positions are the same, whatever the view and the store were.
\<close>

definition exact_size :: "(mem \<Rightarrow> substr \<Rightarrow> mem \<times> nat) \<Rightarrow> bool" where
  "exact_size f \<longleftrightarrow>
     (\<forall>m buf m' buf'. snd (f m buf) = snd (f m' buf')) \<and>
     (\<forall>m buf i. i < str buf \<or> str buf + len buf \<le> i \<longrightarrow> fst (f m buf) i = m i) \<and>
     (\<forall>m buf m' buf' i.
        snd (f m buf) \<le> len buf \<and> snd (f m buf) \<le> len buf' \<and> i < snd (f m buf)
        \<longrightarrow> fst (f m buf) (str buf + i) = fst (f m' buf') (str buf' + i))"

definition sizing_contract :: "'a to_chars_fn \<Rightarrow> bool" where
  "sizing_contract tc \<longleftrightarrow> (\<forall>a. exact_size (\<lambda>m buf. tc m buf a))"

text \<open>
  The text a write operation produces: measure against the empty view, then write
  into a view of exactly that size and read it back.
\<close>

definition output_of :: "(mem \<Rightarrow> substr \<Rightarrow> mem \<times> nat) \<Rightarrow> string" where
  "output_of f =
     (let r = snd (f mem0 substr_null);
          buf = \<lparr>str = 0, len = r\<rparr>
      in contents (fst (f mem0 buf)) buf)"

definition written :: "'a to_chars_fn \<Rightarrow> 'a \<Rightarrow> string" where
  "written tc a = output_of (\<lambda>m buf. tc m buf a)"

text \<open>One write followed by another into what is left of the view.\<close>

definition then_write ::
  "(mem \<Rightarrow> substr \<Rightarrow> mem \<times> nat) \<Rightarrow> (mem \<Rightarrow> substr \<Rightarrow> mem \<times> nat) \<Rightarrow> mem \<Rightarrow> substr \<Rightarrow> mem \<times> nat" where
  "then_write f g m buf =
     (let (m1, num) = f m buf;
          buf1 = (if len buf \<ge> num then sub buf num else substr_null);
          (m2, rest) = g m1 buf1
      in (m2, size_t_wrap (num + rest)))"

section \<open>Properties of a reader\<close>



section \<open>The format string, as the specification describes it\<close>

text \<open>
  The specification of the format engine, on texts: "text before the first
  placeholder is copied verbatim, then the next argument is substituted, then the
  scan resumes in the remainder of the template after that placeholder"; once the
  template has no placeholder left the remaining arguments are ignored, and once
  the arguments are used up the rest of the template is literal text.
\<close>

fun format_text :: "string \<Rightarrow> string list \<Rightarrow> string" where
  "format_text fmt [] = fmt"
| "format_text fmt (t # ts) =
     (case find_fmt fmt of
        None \<Rightarrow> fmt
      | Some pos \<Rightarrow> take pos fmt @ t @ format_text (drop (pos + 2) fmt) ts)"

section \<open>The placeholders of a template\<close>

text \<open>What is left of a template after its first \<open>k\<close> placeholders, if it has that many.\<close>

fun fmt_after :: "string \<Rightarrow> nat \<Rightarrow> string option" where
  "fmt_after fmt 0 = Some fmt"
| "fmt_after fmt (Suc k) =
     (case find_fmt fmt of
        None \<Rightarrow> None
      | Some pos \<Rightarrow> fmt_after (drop (pos + 2) fmt) k)"

text \<open>
  The lengths of the literal spans that precede the first \<open>k\<close> placeholders of a
  template (fewer when the template has fewer placeholders).
\<close>

fun spans :: "string \<Rightarrow> nat \<Rightarrow> nat list" where
  "spans fmt 0 = []"
| "spans fmt (Suc k) =
     (case find_fmt fmt of
        None \<Rightarrow> []
      | Some pos \<Rightarrow> pos # spans (drop (pos + 2) fmt) k)"

text \<open>
  Parsing driven by span lengths alone: before each placeholder that has a
  variable, skip as many characters of the input as the literal span is long and
  count them, then read the variable there; stop at the first read that fails.
\<close>

fun unformat_spans :: "'a from_chars_fn \<Rightarrow> string \<Rightarrow> nat list \<Rightarrow> 'a list \<Rightarrow> 'a list \<times> nat option" where
  "unformat_spans fc buf ps [] = ([], Some 0)"
| "unformat_spans fc buf [] (a # args) = (a # args, Some 0)"
| "unformat_spans fc buf (p # ps) (a # args) =
     (case fc (drop p buf) a of
        (a', None) \<Rightarrow> (a' # args, None)
      | (a', Some k) \<Rightarrow>
          (case unformat_spans fc (drop (p + k) buf) ps args of
             (args', None) \<Rightarrow> (a' # args', None)
           | (args', Some r) \<Rightarrow> (a' # args', Some (p + k + r))))"

section \<open>Composition of writes\<close>

lemma fst_then_write:
  "fst (then_write f g m b) =
     fst (g (fst (f m b)) (if len b \<ge> snd (f m b) then sub b (snd (f m b)) else substr_null))"
  by (simp add: then_write_def case_prod_beta Let_def)

lemma snd_then_write:
  "snd (then_write f g m b) =
     size_t_wrap (snd (f m b)
       + snd (g (fst (f m b)) (if len b \<ge> snd (f m b) then sub b (snd (f m b)) else substr_null)))"
  by (simp add: then_write_def case_prod_beta Let_def)

lemma exact_size_snd:
  "exact_size f \<Longrightarrow> snd (f m buf) = snd (f mem0 substr_null)"
  unfolding exact_size_def by blast

lemma output_of_length:
  "length (output_of f) = snd (f mem0 substr_null)"
  by (simp add: output_of_def contents_def Let_def)

lemma exact_size_prefix:
  assumes f: "exact_size f" and fit: "snd (f m buf) \<le> len buf"
  shows "map (fst (f m buf)) [str buf ..< str buf + snd (f m buf)] = output_of f"
proof -
  define r where "r = snd (f mem0 substr_null)"
  have r: "\<And>m b. snd (f m b) = r"
    unfolding r_def using f by (rule exact_size_snd)
  define b0 where "b0 = \<lparr>str = 0, len = r\<rparr>"
  have det: "fst (f m buf) (str buf + i) = fst (f mem0 b0) i" if "i < r" for i
  proof -
    have "snd (f m buf) \<le> len buf \<and> snd (f m buf) \<le> len b0 \<and> i < snd (f m buf)"
      using fit that by (simp add: r b0_def)
    then have "fst (f m buf) (str buf + i) = fst (f mem0 b0) (str b0 + i)"
      using f unfolding exact_size_def by blast
    then show ?thesis by (simp add: b0_def)
  qed
  have "output_of f = map (fst (f mem0 b0)) [0 ..< r]"
    by (simp add: output_of_def contents_def Let_def r b0_def)
  moreover have "map (fst (f m buf)) [str buf ..< str buf + r] = map (fst (f mem0 b0)) [0 ..< r]"
    by (rule nth_equalityI) (simp_all add: det)
  ultimately show ?thesis by (simp add: r)
qed

lemma exact_size_then_write:
  assumes f: "exact_size f" and g: "exact_size g"
    and nw: "snd (f mem0 substr_null) + snd (g mem0 substr_null) < 2 ^ 64"
  shows "exact_size (then_write f g)"
proof -
  define rf where "rf = snd (f mem0 substr_null)"
  define rg where "rg = snd (g mem0 substr_null)"
  have rf: "\<And>m b. snd (f m b) = rf"
    unfolding rf_def using f by (rule exact_size_snd)
  have rg: "\<And>m b. snd (g m b) = rg"
    unfolding rg_def using g by (rule exact_size_snd)
  have wrap: "size_t_wrap (rf + rg) = rf + rg"
    using nw by (simp add: size_t_wrap_def rf_def rg_def)
  have fout: "\<And>m b i. i < str b \<or> str b + len b \<le> i \<Longrightarrow> fst (f m b) i = m i"
    using f unfolding exact_size_def by blast
  have gout: "\<And>m b i. i < str b \<or> str b + len b \<le> i \<Longrightarrow> fst (g m b) i = m i"
    using g unfolding exact_size_def by blast
  have fdet: "\<And>m b m' b' i. rf \<le> len b \<Longrightarrow> rf \<le> len b' \<Longrightarrow> i < rf
      \<Longrightarrow> fst (f m b) (str b + i) = fst (f m' b') (str b' + i)"
    using f rf unfolding exact_size_def by metis
  have gdet: "\<And>m b m' b' i. rg \<le> len b \<Longrightarrow> rg \<le> len b' \<Longrightarrow> i < rg
      \<Longrightarrow> fst (g m b) (str b + i) = fst (g m' b') (str b' + i)"
    using g rg unfolding exact_size_def by metis
  have snd_eq: "\<And>m b. snd (then_write f g m b) = rf + rg"
    by (simp add: snd_then_write rf rg wrap)
  have fst_eq: "\<And>m b. fst (then_write f g m b) =
      fst (g (fst (f m b)) (if len b \<ge> rf then sub b rf else substr_null))"
    by (simp add: fst_then_write rf)
  have out: "\<And>m (b::substr) i. i < str b \<or> str b + len b \<le> i
      \<Longrightarrow> fst (then_write f g m b) i = m i"
  proof -
    fix m and b :: substr and i assume i: "i < str b \<or> str b + len b \<le> i"
    let ?b1 = "if len b \<ge> rf then sub b rf else substr_null"
    have "i < str ?b1 \<or> str ?b1 + len ?b1 \<le> i"
      using i by (auto simp: sub_def substr_null_def)
    then have "fst (g (fst (f m b)) ?b1) i = fst (f m b) i" by (rule gout)
    also have "\<dots> = m i" using i by (rule fout)
    finally show "fst (then_write f g m b) i = m i" by (simp add: fst_eq)
  qed
  have det: "\<And>m (b::substr) m' (b'::substr) i.
      rf + rg \<le> len b \<Longrightarrow> rf + rg \<le> len b' \<Longrightarrow> i < rf + rg
      \<Longrightarrow> fst (then_write f g m b) (str b + i) = fst (then_write f g m' b') (str b' + i)"
  proof -
    fix m and b :: substr and m' and b' :: substr and i
    assume b: "rf + rg \<le> len b" and b': "rf + rg \<le> len b'" and i: "i < rf + rg"
    show "fst (then_write f g m b) (str b + i) = fst (then_write f g m' b') (str b' + i)"
    proof (cases "i < rf")
      case True
      have "fst (g (fst (f m b)) (sub b rf)) (str b + i) = fst (f m b) (str b + i)"
        by (rule gout) (use True in \<open>simp add: sub_def\<close>)
      moreover have "fst (g (fst (f m' b')) (sub b' rf)) (str b' + i) = fst (f m' b') (str b' + i)"
        by (rule gout) (use True in \<open>simp add: sub_def\<close>)
      moreover have "fst (f m b) (str b + i) = fst (f m' b') (str b' + i)"
        using b b' True by (intro fdet) auto
      ultimately show ?thesis using b b' by (simp add: fst_eq)
    next
      case False
      then obtain j where j: "i = rf + j" "j < rg" using i
        by (metis add_diff_inverse_nat nat_add_left_cancel_less)
      have "fst (g (fst (f m b)) (sub b rf)) (str (sub b rf) + j)
          = fst (g (fst (f m' b')) (sub b' rf)) (str (sub b' rf) + j)"
        using b b' j by (intro gdet) (auto simp: sub_def)
      then show ?thesis using b b' j by (simp add: fst_eq sub_def add.assoc)
    qed
  qed
  show ?thesis
    unfolding exact_size_def using out det by (simp add: snd_eq)
qed


lemma output_of_then_write:
  assumes f: "exact_size f" and g: "exact_size g"
    and nw: "snd (f mem0 substr_null) + snd (g mem0 substr_null) < 2 ^ 64"
  shows "output_of (then_write f g) = output_of f @ output_of g"
proof -
  define rf where "rf = snd (f mem0 substr_null)"
  define rg where "rg = snd (g mem0 substr_null)"
  have rf: "\<And>m b. snd (f m b) = rf"
    unfolding rf_def using f by (rule exact_size_snd)
  have rg: "\<And>m b. snd (g m b) = rg"
    unfolding rg_def using g by (rule exact_size_snd)
  have wrap: "size_t_wrap (rf + rg) = rf + rg"
    using nw by (simp add: size_t_wrap_def rf_def rg_def)
  have gout: "\<And>m b i. i < str b \<or> str b + len b \<le> i \<Longrightarrow> fst (g m b) i = m i"
    using g unfolding exact_size_def by blast
  define b where "b = \<lparr>str = 0, len = rf + rg\<rparr>"
  define m1 where "m1 = fst (f mem0 b)"
  define m2 where "m2 = fst (g m1 (sub b rf))"
  have out: "output_of (then_write f g) = map m2 [0 ..< rf + rg]"
    by (simp add: output_of_def contents_def Let_def snd_then_write fst_then_write rf rg wrap
        b_def m1_def m2_def)
  have first: "map m2 [0 ..< rf] = output_of f"
  proof -
    have "m2 i = m1 i" if "i < rf" for i
      unfolding m2_def using that by (intro gout) (simp add: sub_def b_def)
    then have "map m2 [0 ..< rf] = map m1 [0 ..< rf]" by simp
    also have "\<dots> = output_of f"
      using exact_size_prefix [OF f, of mem0 b] by (simp add: rf b_def m1_def)
    finally show ?thesis .
  qed
  have second: "map m2 [rf ..< rf + rg] = output_of g"
    using exact_size_prefix [OF g, of m1 "sub b rf"] by (simp add: rg sub_def b_def m2_def)
  have "[0 ..< rf + rg] = [0 ..< rf] @ [rf ..< rf + rg]"
    by (metis le_add1 upt_add_eq_append zero_le)
  then show ?thesis
    using out first second by (metis map_append)
qed

lemma output_of_skip: "output_of (\<lambda>m buf. (m, 0)) = []"
  by (simp add: output_of_def contents_def Let_def)

lemma output_of_to_chars_csubstr: "output_of (\<lambda>m buf. to_chars_csubstr m buf v) = v"
  by (auto simp: output_of_def contents_def to_chars_csubstr_def Let_def intro: nth_equalityI)

lemma exact_size_to_chars_csubstr: "exact_size (\<lambda>m buf. to_chars_csubstr m buf v)"
  by (auto simp: exact_size_def to_chars_csubstr_def Let_def)

lemma exact_size_skip: "exact_size (\<lambda>m buf. (m, 0))"
  by (simp add: exact_size_def)

lemma sizing_contract_to_chars_arg: "sizing_contract to_chars_arg"
  unfolding sizing_contract_def to_chars_arg_def by (simp add: exact_size_to_chars_csubstr)

lemma sizing_contract_to_chars_uint: "sizing_contract to_chars_uint"
  unfolding sizing_contract_def to_chars_uint_def by (simp add: exact_size_to_chars_csubstr)

lemma snd_by_output:
  "exact_size f \<Longrightarrow> snd (f m buf) = length (output_of f)"
  by (simp add: output_of_length exact_size_snd [of f m buf])


lemma written_to_chars_arg: "written to_chars_arg a = arg_text a"
  by (simp add: written_def to_chars_arg_def output_of_to_chars_csubstr)

lemma length_written: "length (written tc a) = snd (tc mem0 substr_null a)"
  by (simp add: written_def [abs_def] output_of_length)

lemma size_t_wrap_assoc:
  "size_t_wrap (size_t_wrap (a + b) + c) = size_t_wrap (a + size_t_wrap (b + c))"
  by (simp add: size_t_wrap_def mod_simps add.assoc)

lemma then_write_props:
  assumes "exact_size f" and "exact_size g"
    and "length (output_of f) + length (output_of g) < 2 ^ 64"
  shows "exact_size (then_write f g) \<and> output_of (then_write f g) = output_of f @ output_of g"
  using assms by (simp add: output_of_length exact_size_then_write output_of_then_write)

lemma cat_Cons_then_write:
  "cat tc m buf (a # args) =
     then_write (\<lambda>m buf. tc m buf a) (\<lambda>m buf. cat tc m buf args) m buf"
  by (simp add: then_write_def)

lemma cat_props:
  "sizing_contract tc \<Longrightarrow> length (concat (map (written tc) args)) < 2 ^ 64 \<Longrightarrow>
   exact_size (\<lambda>m buf. cat tc m buf args) \<and>
   output_of (\<lambda>m buf. cat tc m buf args) = concat (map (written tc) args)"
proof (induction args)
  case Nil
  show ?case by (simp add: exact_size_skip output_of_skip)
next
  case (Cons a args)
  have f: "exact_size (\<lambda>m buf. tc m buf a)"
    using Cons.prems(1) by (simp add: sizing_contract_def)
  have g: "exact_size (\<lambda>m buf. cat tc m buf args)"
      "output_of (\<lambda>m buf. cat tc m buf args) = concat (map (written tc) args)"
    using Cons by simp_all
  have "length (output_of (\<lambda>m buf. tc m buf a)) + length (output_of (\<lambda>m buf. cat tc m buf args)) < 2 ^ 64"
    using Cons.prems(2) g(2) by (simp add: written_def [abs_def])
  then have "exact_size (then_write (\<lambda>m buf. tc m buf a) (\<lambda>m buf. cat tc m buf args)) \<and>
      output_of (then_write (\<lambda>m buf. tc m buf a) (\<lambda>m buf. cat tc m buf args))
        = output_of (\<lambda>m buf. tc m buf a) @ output_of (\<lambda>m buf. cat tc m buf args)"
    using f g(1) by (intro then_write_props)
  then show ?case
    using g(2) by (simp add: cat_Cons_then_write [abs_def] written_def [abs_def] del: cat.simps)
qed

lemma catsep_more_Cons_then_write:
  "catsep_more tc m buf sep (a # args) =
     then_write (\<lambda>m buf. tc m buf sep)
       (then_write (\<lambda>m buf. tc m buf a) (\<lambda>m buf. catsep_more tc m buf sep args)) m buf"
  by (simp add: then_write_def Let_def size_t_wrap_assoc split: prod.splits)

lemma catsep_more_props:
  "sizing_contract tc \<Longrightarrow>
   length (concat (map (\<lambda>x. written tc sep @ written tc x) args)) < 2 ^ 64 \<Longrightarrow>
   exact_size (\<lambda>m buf. catsep_more tc m buf sep args) \<and>
   output_of (\<lambda>m buf. catsep_more tc m buf sep args)
     = concat (map (\<lambda>x. written tc sep @ written tc x) args)"
proof (induction args)
  case Nil
  show ?case by (simp add: exact_size_skip output_of_skip)
next
  case (Cons a args)
  have tc: "exact_size (\<lambda>m buf. tc m buf x)" for x
    using Cons.prems(1) by (simp add: sizing_contract_def)
  have g: "exact_size (\<lambda>m buf. catsep_more tc m buf sep args)"
      "output_of (\<lambda>m buf. catsep_more tc m buf sep args)
        = concat (map (\<lambda>x. written tc sep @ written tc x) args)"
    using Cons by simp_all
  have inner: "exact_size (then_write (\<lambda>m buf. tc m buf a) (\<lambda>m buf. catsep_more tc m buf sep args)) \<and>
      output_of (then_write (\<lambda>m buf. tc m buf a) (\<lambda>m buf. catsep_more tc m buf sep args))
        = output_of (\<lambda>m buf. tc m buf a) @ output_of (\<lambda>m buf. catsep_more tc m buf sep args)"
    using tc g(1) Cons.prems(2) g(2) by (intro then_write_props) (simp_all add: written_def [abs_def])
  have "exact_size (then_write (\<lambda>m buf. tc m buf sep)
          (then_write (\<lambda>m buf. tc m buf a) (\<lambda>m buf. catsep_more tc m buf sep args))) \<and>
      output_of (then_write (\<lambda>m buf. tc m buf sep)
          (then_write (\<lambda>m buf. tc m buf a) (\<lambda>m buf. catsep_more tc m buf sep args)))
        = output_of (\<lambda>m buf. tc m buf sep)
          @ output_of (then_write (\<lambda>m buf. tc m buf a) (\<lambda>m buf. catsep_more tc m buf sep args))"
    using tc inner Cons.prems(2) g(2) by (intro then_write_props) (simp_all add: written_def [abs_def])
  then show ?case
    using inner g(2)
    by (simp add: catsep_more_Cons_then_write [abs_def] written_def [abs_def] del: catsep_more.simps)
qed

lemma catsep_then_write:
  "catsep tc m buf sep a args =
     then_write (\<lambda>m buf. tc m buf a) (\<lambda>m buf. catsep_more tc m buf sep args) m buf"
  by (simp add: then_write_def catsep_def)

lemma catsep_props:
  assumes "sizing_contract tc"
    and "length (written tc a @ concat (map (\<lambda>x. written tc sep @ written tc x) args)) < 2 ^ 64"
  shows "exact_size (\<lambda>m buf. catsep tc m buf sep a args) \<and>
         output_of (\<lambda>m buf. catsep tc m buf sep a args)
           = written tc a @ concat (map (\<lambda>x. written tc sep @ written tc x) args)"
proof -
  have f: "exact_size (\<lambda>m buf. tc m buf a)"
    using assms(1) by (simp add: sizing_contract_def)
  have g: "exact_size (\<lambda>m buf. catsep_more tc m buf sep args)"
      "output_of (\<lambda>m buf. catsep_more tc m buf sep args)
        = concat (map (\<lambda>x. written tc sep @ written tc x) args)"
    using catsep_more_props [OF assms(1), of sep args] assms(2) by simp_all
  have "exact_size (then_write (\<lambda>m buf. tc m buf a) (\<lambda>m buf. catsep_more tc m buf sep args)) \<and>
      output_of (then_write (\<lambda>m buf. tc m buf a) (\<lambda>m buf. catsep_more tc m buf sep args))
        = output_of (\<lambda>m buf. tc m buf a) @ output_of (\<lambda>m buf. catsep_more tc m buf sep args)"
    using f g assms(2) by (intro then_write_props) (simp_all add: written_def [abs_def])
  then show ?thesis
    using g(2) by (simp add: catsep_then_write [abs_def] written_def [abs_def])
qed

lemma format_Cons_then_write:
  "find_fmt fmt = Some pos \<Longrightarrow>
   format tc m buf fmt (a # args) =
     then_write (\<lambda>m buf. to_chars_csubstr m buf (take pos fmt))
       (then_write (\<lambda>m buf. tc m buf a)
          (\<lambda>m buf. format tc m buf (drop (pos + 2) fmt) args)) m buf"
  by (simp add: then_write_def Let_def size_t_wrap_assoc split: prod.splits)

lemma format_Cons_None:
  "find_fmt fmt = None \<Longrightarrow> format tc m buf fmt (a # args) = to_chars_csubstr m buf fmt"
  by simp

lemma format_props:
  "sizing_contract tc \<Longrightarrow> length (format_text fmt (map (written tc) args)) < 2 ^ 64 \<Longrightarrow>
   exact_size (\<lambda>m buf. format tc m buf fmt args) \<and>
   output_of (\<lambda>m buf. format tc m buf fmt args) = format_text fmt (map (written tc) args)"
proof (induction args arbitrary: fmt)
  case Nil
  show ?case by (simp add: exact_size_to_chars_csubstr output_of_to_chars_csubstr)
next
  case (Cons a args)
  show ?case
  proof (cases "find_fmt fmt")
    case None
    then show ?thesis
      by (simp add: exact_size_to_chars_csubstr output_of_to_chars_csubstr)
  next
    case (Some pos)
    let ?rest = "drop (pos + 2) fmt"
    have bound: "length (take pos fmt) + (length (written tc a)
        + length (format_text ?rest (map (written tc) args))) < 2 ^ 64"
      using Cons.prems(2) Some by simp
    have f: "exact_size (\<lambda>m buf. tc m buf a)"
      using Cons.prems(1) by (simp add: sizing_contract_def)
    have g: "exact_size (\<lambda>m buf. format tc m buf ?rest args)"
        "output_of (\<lambda>m buf. format tc m buf ?rest args) = format_text ?rest (map (written tc) args)"
      using Cons.IH [OF Cons.prems(1), of ?rest] bound by simp_all
    have inner: "exact_size (then_write (\<lambda>m buf. tc m buf a) (\<lambda>m buf. format tc m buf ?rest args)) \<and>
        output_of (then_write (\<lambda>m buf. tc m buf a) (\<lambda>m buf. format tc m buf ?rest args))
          = output_of (\<lambda>m buf. tc m buf a) @ output_of (\<lambda>m buf. format tc m buf ?rest args)"
      using f g bound by (intro then_write_props) (simp_all add: written_def [abs_def])
    have "exact_size (then_write (\<lambda>m buf. to_chars_csubstr m buf (take pos fmt))
            (then_write (\<lambda>m buf. tc m buf a) (\<lambda>m buf. format tc m buf ?rest args))) \<and>
        output_of (then_write (\<lambda>m buf. to_chars_csubstr m buf (take pos fmt))
            (then_write (\<lambda>m buf. tc m buf a) (\<lambda>m buf. format tc m buf ?rest args)))
          = output_of (\<lambda>m buf. to_chars_csubstr m buf (take pos fmt))
            @ output_of (then_write (\<lambda>m buf. tc m buf a) (\<lambda>m buf. format tc m buf ?rest args))"
      using inner g(2) bound
      by (intro then_write_props exact_size_to_chars_csubstr)
        (simp_all add: written_def [abs_def] output_of_to_chars_csubstr)
    then show ?thesis
      using inner g(2) Some
      by (simp add: format_Cons_then_write [OF Some, abs_def] written_def [abs_def]
          output_of_to_chars_csubstr del: format.simps)
  qed
qed

lemma sizing_contract_to_chars_fill: "sizing_contract to_chars_fill"
  by (auto simp: sizing_contract_def exact_size_def to_chars_fill_def)

section \<open>The exact-size property of the engines\<close>




section \<open>Decimal integers\<close>



lemma utoa_small: "n < 10 \<Longrightarrow> utoa n = [digit_char n]"
  by (simp add: utoa.simps [of n])

lemma itoa_5: "itoa 5 = ''5''"
  by (simp add: itoa_def utoa_small digit_char_def)




lemma written_to_chars_uint: "written to_chars_uint v = utoa v"
  by (simp add: written_def to_chars_uint_def output_of_to_chars_csubstr)


section \<open>The retry loop\<close>




section \<open>Reading back what cat wrote\<close>




section \<open>catrs\<close>



section \<open>Placeholders\<close>

text \<open>
  C6. Under the sizing contract, and for a text shorter than \<open>2 ^ 64\<close> characters
  as every text that a buffer holds is, the text \<^verbatim>\<open>format\<close> produces is the template
  with the texts of the arguments substituted, in order, at the \<^verbatim>\<open>{}\<close> tokens found
  from left to right (\<open>format_text\<close>). When the template has no token (left), the
  remaining arguments are ignored and the template is written as it is; when no
  argument is left, the rest of the template is written as it is, tokens included.
  \<^verbatim>\<open>format(buf, "the {} drank {} {}", "partier", 5, "beers")\<close> produces
  \<^verbatim>\<open>the partier drank 5 beers\<close>, and with the first two arguments only it produces
  \<^verbatim>\<open>the partier drank 5 {}\<close>.
\<close>

theorem format_placeholders:
  assumes "sizing_contract tc"
    and "length (format_text fmt (map (written tc) args)) < 2 ^ 64"
  shows "output_of (\<lambda>m buf. format tc m buf fmt args) = format_text fmt (map (written tc) args)
       \<and> (find_fmt fmt = None \<longrightarrow> format tc m buf fmt args = to_chars_csubstr m buf fmt)
       \<and> format tc m buf fmt [] = to_chars_csubstr m buf fmt
       \<and> output_of (\<lambda>m buf. format to_chars_arg m buf ''the {} drank {} {}''
            [Str ''partier'', Num 5, Str ''beers'']) = ''the partier drank 5 beers''
       \<and> output_of (\<lambda>m buf. format to_chars_arg m buf ''the {} drank {} {}''
            [Str ''partier'', Num 5]) = ''the partier drank 5 {}''"
proof -
  have "find_fmt fmt = None \<longrightarrow> format tc m buf fmt args = to_chars_csubstr m buf fmt"
    by (cases args) simp_all
  moreover have "output_of (\<lambda>m buf. format to_chars_arg m buf ''the {} drank {} {}''
            [Str ''partier'', Num 5, Str ''beers'']) = ''the partier drank 5 beers''"
    using format_props [OF sizing_contract_to_chars_arg,
        of "''the {} drank {} {}''" "[Str ''partier'', Num 5, Str ''beers'']"]
    by (simp add: written_to_chars_arg itoa_5 del: format.simps)
  moreover have "output_of (\<lambda>m buf. format to_chars_arg m buf ''the {} drank {} {}''
            [Str ''partier'', Num 5]) = ''the partier drank 5 {}''"
    using format_props [OF sizing_contract_to_chars_arg,
        of "''the {} drank {} {}''" "[Str ''partier'', Num 5]"]
    by (simp add: written_to_chars_arg itoa_5 del: format.simps)
  ultimately show ?thesis
    using format_props [OF assms] by simp
qed

theorem format_placeholders_witness:
  "sizing_contract to_chars_arg \<and>
   length (format_text ''{} and {}'' (map (written to_chars_arg) [Str ''x'', Str ''y'', Str ''z''])) < 2 ^ 64 \<and>
   find_fmt ''no token'' = None \<and>
   output_of (\<lambda>m buf. format to_chars_arg m buf ''{} and {}'' [Str ''x'', Str ''y'', Str ''z''])
      = ''x and y'' \<and>
   format to_chars_arg mem0 \<lparr>str = 0, len = 4\<rparr> ''no token'' [Num 5]
      = to_chars_csubstr mem0 \<lparr>str = 0, len = 4\<rparr> ''no token''"
proof -
  have n: "find_fmt ''no token'' = None" by simp
  have b1: "length (format_text ''{} and {}''
      (map (written to_chars_arg) [Str ''x'', Str ''y'', Str ''z''])) < 2 ^ 64"
    by (simp add: written_to_chars_arg)
  have b2: "length (format_text ''no token'' (map (written to_chars_arg) [Num 5])) < 2 ^ 64"
    by (simp add: written_to_chars_arg)
  show ?thesis
    using format_placeholders [OF sizing_contract_to_chars_arg b1]
      format_placeholders [OF sizing_contract_to_chars_arg b2, of mem0 "\<lparr>str = 0, len = 4\<rparr>"]
      sizing_contract_to_chars_arg n b1
    by (simp add: written_to_chars_arg del: format.simps)
qed

section \<open>Separators\<close>

text \<open>
  C8. Under the sizing contract, and for a text shorter than \<open>2 ^ 64\<close> characters
  as every text that a buffer holds is, the text \<^verbatim>\<open>catsep\<close> produces is the text of
  the first argument followed, for each further argument, by the text of the
  separator and the text of that argument. \<^verbatim>\<open>catsep(buf, ",", "a", "b", "c")\<close>
  produces \<^verbatim>\<open>a,b,c\<close> and returns 5. With one argument \<^verbatim>\<open>catsep\<close> is \<^verbatim>\<open>to_chars\<close> of that
  argument. With no argument, \<^verbatim>\<open>catsep_more\<close> returns 0 and \<^verbatim>\<open>catseprs\<close> returns at
  once: neither writes anything.
\<close>

theorem catsep_placement:
  assumes "sizing_contract tc"
    and "length (written tc a @ concat (map (\<lambda>x. written tc sep @ written tc x) args)) < 2 ^ 64"
  shows "output_of (\<lambda>m buf. catsep tc m buf sep a args)
           = written tc a @ concat (map (\<lambda>x. written tc sep @ written tc x) args)
       \<and> output_of (\<lambda>m buf. catsep to_chars_arg m buf (Str '','') (Str ''a'') [Str ''b'', Str ''c''])
           = ''a,b,c''
       \<and> snd (catsep to_chars_arg m buf (Str '','') (Str ''a'') [Str ''b'', Str ''c'']) = 5
       \<and> catsep tc m buf sep a [] = tc m buf a
       \<and> catsep_more tc m buf sep [] = (m, 0)
       \<and> catseprs tc m cont sep [] = Some (m, cont)"
proof -
  have abc: "exact_size (\<lambda>m buf. catsep to_chars_arg m buf (Str '','') (Str ''a'') [Str ''b'', Str ''c''])
      \<and> output_of (\<lambda>m buf. catsep to_chars_arg m buf (Str '','') (Str ''a'') [Str ''b'', Str ''c''])
        = ''a,b,c''"
    using catsep_props [OF sizing_contract_to_chars_arg,
        of "Str ''a''" "Str '',''" "[Str ''b'', Str ''c'']"]
    by (simp add: written_to_chars_arg)
  have "snd (catsep to_chars_arg m buf (Str '','') (Str ''a'') [Str ''b'', Str ''c'']) = 5"
    using snd_by_output [OF conjunct1 [OF abc], of m buf] conjunct2 [OF abc] by simp
  moreover have "catsep tc m buf sep a [] = tc m buf a"
    using assms(2) length_written [of tc a, symmetric]
      exact_size_snd [of "\<lambda>m buf. tc m buf a" m buf] assms(1)
    by (simp add: catsep_def case_prod_beta size_t_wrap_def sizing_contract_def prod_eq_iff)
  ultimately show ?thesis
    using catsep_props [OF assms] abc by simp
qed

theorem catsep_placement_witness:
  "sizing_contract to_chars_uint \<and>
   length (written to_chars_uint 1
     @ concat (map (\<lambda>x. written to_chars_uint 0 @ written to_chars_uint x) [2, 3])) < 2 ^ 64 \<and>
   output_of (\<lambda>m buf. catsep to_chars_uint m buf 0 1 [2, 3]) = ''10203''"
proof -
  have b: "length (written to_chars_uint 1
     @ concat (map (\<lambda>x. written to_chars_uint 0 @ written to_chars_uint x) [2, 3])) < 2 ^ 64"
    by (simp add: written_to_chars_uint utoa_small)
  show ?thesis
    using catsep_placement [OF sizing_contract_to_chars_uint b] sizing_contract_to_chars_uint b
    by (simp add: written_to_chars_uint utoa_small digit_char_def)
qed

section \<open>The first read that fails\<close>

lemma drop_guard [simp]: "(if n \<le> length xs then drop n xs else []) = drop n xs"
  by simp

lemma uncat_prefix_fails:
  "uncat fc buf pre = (pre', Some n) \<Longrightarrow> fc (drop n buf) a = (a', None) \<Longrightarrow>
   uncat fc buf (pre @ a # post) = (pre' @ a' # post, None)"
proof (induction pre arbitrary: buf pre' n)
  case Nil
  then show ?case by simp
next
  case (Cons x pre)
  obtain x' out where x: "fc buf x = (x', Some out)"
    using Cons.prems(1) by (cases "fc buf x"; cases "snd (fc buf x)") (auto split: prod.splits)
  obtain pre1 k where rest: "uncat fc (drop out buf) pre = (pre1, Some k)"
    using Cons.prems(1) x
    by (cases "uncat fc (drop out buf) pre"; cases "snd (uncat fc (drop out buf) pre)") auto
  have res: "pre' = x' # pre1" "n = out + k"
    using Cons.prems(1) x rest by auto
  have "fc (drop k (drop out buf)) a = (a', None)"
    using Cons.prems(2) res by (simp add: add.commute)
  then have "uncat fc (drop out buf) (pre @ a # post) = (pre1 @ a' # post, None)"
    using Cons.IH [OF rest] by simp
  then show ?case
    using x res by simp
qed

lemma uncatsep_more_prefix_fails:
  assumes "uncatsep_more fc buf sep pre = (sep1, pre', Some n)"
  shows "(fc (drop n buf) sep1 = (sep2, None) \<longrightarrow>
            uncatsep_more fc buf sep (pre @ a # post) = (sep2, pre' @ a # post, None)) \<and>
         (fc (drop n buf) sep1 = (sep2, Some r) \<and> fc (drop (n + r) buf) a = (a', None) \<longrightarrow>
            uncatsep_more fc buf sep (pre @ a # post) = (sep2, pre' @ a' # post, None))"
  using assms
proof (induction pre arbitrary: buf sep pre' n)
  case Nil
  then show ?case by (auto simp: add.commute)
next
  case (Cons x pre)
  obtain s1 ret where s: "fc buf sep = (s1, Some ret)"
    using Cons.prems by (cases "fc buf sep"; cases "snd (fc buf sep)") (auto split: prod.splits)
  obtain x' ret2 where x: "fc (drop ret buf) x = (x', Some ret2)"
    using Cons.prems s
    by (cases "fc (drop ret buf) x"; cases "snd (fc (drop ret buf) x)") (auto split: prod.splits)
  obtain s2 pre1 k where rest:
      "uncatsep_more fc (drop ret2 (drop ret buf)) s1 pre = (s2, pre1, Some k)"
    using Cons.prems s x
    by (cases "uncatsep_more fc (drop ret2 (drop ret buf)) s1 pre";
        cases "snd (snd (uncatsep_more fc (drop ret2 (drop ret buf)) s1 pre))") auto
  have res: "sep1 = s2" "pre' = x' # pre1" "n = ret + ret2 + k"
    using Cons.prems s x rest by auto
  have d: "drop n buf = drop k (drop ret2 (drop ret buf))"
      "drop (n + r) buf = drop (k + r) (drop ret2 (drop ret buf))"
    using res by (simp_all add: ac_simps)
  have rest': "uncatsep_more fc (drop ret2 (drop ret buf)) s1 pre = (sep1, pre1, Some k)"
    using rest res(1) by simp
  show ?case
    using Cons.IH [OF rest'] s x res(2) unfolding d by auto
qed

lemma unformat_prefix_fails:
  "unformat fc buf fmt pre = (pre', Some n) \<Longrightarrow> fmt_after fmt (length pre) = Some fmtk \<Longrightarrow>
   find_fmt fmtk = Some pos \<Longrightarrow> fc (drop (n + pos) buf) a = (a', None) \<Longrightarrow>
   unformat fc buf fmt (pre @ a # post) = (pre' @ a' # post, None)"
proof (induction pre arbitrary: buf fmt pre' n)
  case Nil
  then show ?case by simp
next
  case (Cons x pre)
  obtain p where p: "find_fmt fmt = Some p"
    using Cons.prems(2) by (cases "find_fmt fmt") auto
  obtain x' num2 where x: "fc (drop p buf) x = (x', Some num2)"
    using Cons.prems(1) p
    by (cases "fc (drop p buf) x"; cases "snd (fc (drop p buf) x)") (auto split: prod.splits)
  obtain pre1 k where rest:
      "unformat fc (drop num2 (drop p buf)) (drop (p + 2) fmt) pre = (pre1, Some k)"
    using Cons.prems(1) p x
    by (cases "unformat fc (drop num2 (drop p buf)) (drop (p + 2) fmt) pre";
        cases "snd (unformat fc (drop num2 (drop p buf)) (drop (p + 2) fmt) pre)") auto
  have res: "pre' = x' # pre1" "n = p + num2 + k"
    using Cons.prems(1) p x rest by auto
  have "fc (drop (k + pos) (drop num2 (drop p buf))) a = (a', None)"
    using Cons.prems(4) res by (simp add: ac_simps)
  moreover have "fmt_after (drop (p + 2) fmt) (length pre) = Some fmtk"
    using Cons.prems(2) p by simp
  ultimately have "unformat fc (drop num2 (drop p buf)) (drop (p + 2) fmt) (pre @ a # post)
      = (pre1 @ a' # post, None)"
    using Cons.IH [OF rest _ Cons.prems(3)] by simp
  then show ?case
    using p x res by simp
qed

text \<open>
  C3. Let the reads of the variables before \<open>a\<close> succeed, and let the read of \<open>a\<close>
  return the not-found sentinel. Then \<^verbatim>\<open>uncat\<close>, \<^verbatim>\<open>uncatsep\<close> and \<^verbatim>\<open>unformat\<close> return
  the sentinel; the variables \<open>post\<close> after \<open>a\<close> come back as they were; the variables
  before it keep what was read into them, and \<open>a\<close> what its failed read left. For
  \<^verbatim>\<open>uncatsep\<close> the read that fails may also be that of the separator in front of
  \<open>a\<close>, and then \<open>a\<close> comes back as it was too. For \<^verbatim>\<open>unformat\<close>, \<open>a\<close> is a variable
  that has a placeholder in the template.
\<close>

theorem parse_short_circuit:
  "(uncat fc buf pre = (pre', Some n) \<and> fc (drop n buf) a = (a', None) \<longrightarrow>
      uncat fc buf (pre @ a # post) = (pre' @ a' # post, None)) \<and>
   (fc buf a0 = (a0', None) \<longrightarrow> uncatsep fc buf sep a0 post = (sep, a0' # post, None)) \<and>
   (uncatsep fc buf sep a0 pre = (sep1, a0' # pre', Some n) \<and> fc (drop n buf) sep1 = (sep2, None) \<longrightarrow>
      uncatsep fc buf sep a0 (pre @ a # post) = (sep2, a0' # pre' @ a # post, None)) \<and>
   (uncatsep fc buf sep a0 pre = (sep1, a0' # pre', Some n) \<and> fc (drop n buf) sep1 = (sep2, Some r) \<and>
    fc (drop (n + r) buf) a = (a', None) \<longrightarrow>
      uncatsep fc buf sep a0 (pre @ a # post) = (sep2, a0' # pre' @ a' # post, None)) \<and>
   (unformat fc buf fmt pre = (pre', Some n) \<and> fmt_after fmt (length pre) = Some fmtk \<and>
    find_fmt fmtk = Some pos \<and> fc (drop (n + pos) buf) a = (a', None) \<longrightarrow>
      unformat fc buf fmt (pre @ a # post) = (pre' @ a' # post, None))"
proof (intro conjI impI; (elim conjE)?)
  assume "uncat fc buf pre = (pre', Some n)" "fc (drop n buf) a = (a', None)"
  then show "uncat fc buf (pre @ a # post) = (pre' @ a' # post, None)"
    by (rule uncat_prefix_fails)
next
  assume "fc buf a0 = (a0', None)"
  then show "uncatsep fc buf sep a0 post = (sep, a0' # post, None)"
    by (simp add: uncatsep_def)
next
  assume whole: "uncatsep fc buf sep a0 pre = (sep1, a0' # pre', Some n)"
    and s: "fc (drop n buf) sep1 = (sep2, None)"
  obtain ret where first: "fc buf a0 = (a0', Some ret)"
    using whole unfolding uncatsep_def
    by (cases "fc buf a0"; cases "snd (fc buf a0)") (auto split: prod.splits option.splits)
  obtain k where more: "uncatsep_more fc (drop ret buf) sep pre = (sep1, pre', Some k)"
      and n: "n = ret + k"
    using whole first unfolding uncatsep_def
    by (cases "uncatsep_more fc (drop ret buf) sep pre";
        cases "snd (snd (uncatsep_more fc (drop ret buf) sep pre))") auto
  have "fc (drop k (drop ret buf)) sep1 = (sep2, None)"
    using s n by (simp add: add.commute)
  then have "uncatsep_more fc (drop ret buf) sep (pre @ a # post) = (sep2, pre' @ a # post, None)"
    using uncatsep_more_prefix_fails [OF more] by blast
  then show "uncatsep fc buf sep a0 (pre @ a # post) = (sep2, a0' # pre' @ a # post, None)"
    using first by (simp add: uncatsep_def)
next
  assume whole: "uncatsep fc buf sep a0 pre = (sep1, a0' # pre', Some n)"
    and s: "fc (drop n buf) sep1 = (sep2, Some r)"
    and f: "fc (drop (n + r) buf) a = (a', None)"
  obtain ret where first: "fc buf a0 = (a0', Some ret)"
    using whole unfolding uncatsep_def
    by (cases "fc buf a0"; cases "snd (fc buf a0)") (auto split: prod.splits option.splits)
  obtain k where more: "uncatsep_more fc (drop ret buf) sep pre = (sep1, pre', Some k)"
      and n: "n = ret + k"
    using whole first unfolding uncatsep_def
    by (cases "uncatsep_more fc (drop ret buf) sep pre";
        cases "snd (snd (uncatsep_more fc (drop ret buf) sep pre))") auto
  have "fc (drop k (drop ret buf)) sep1 = (sep2, Some r)"
      "fc (drop (k + r) (drop ret buf)) a = (a', None)"
    using s f n by (simp_all add: ac_simps)
  then have "uncatsep_more fc (drop ret buf) sep (pre @ a # post) = (sep2, pre' @ a' # post, None)"
    using uncatsep_more_prefix_fails [OF more] by blast
  then show "uncatsep fc buf sep a0 (pre @ a # post) = (sep2, a0' # pre' @ a' # post, None)"
    using first by (simp add: uncatsep_def)
next
  assume "unformat fc buf fmt pre = (pre', Some n)" "fmt_after fmt (length pre) = Some fmtk"
    "find_fmt fmtk = Some pos" "fc (drop (n + pos) buf) a = (a', None)"
  then show "unformat fc buf fmt (pre @ a # post) = (pre' @ a' # post, None)"
    by (rule unformat_prefix_fails)
qed

theorem parse_short_circuit_witness:
  "uncat from_chars_first_char ''a'' ''x'' = (''a'', Some 1) \<and>
   from_chars_first_char (drop 1 ''a'') CHR ''y'' = (CHR ''y'', None) \<and>
   uncat from_chars_first_char ''a'' ''xyz'' = (''ayz'', None) \<and>
   from_chars_first_char [] CHR ''x'' = (CHR ''x'', None) \<and>
   uncatsep from_chars_first_char [] CHR ''s'' CHR ''x'' ''yz'' = (CHR ''s'', ''xyz'', None) \<and>
   uncatsep from_chars_first_char ''a'' CHR ''s'' CHR ''x'' [] = (CHR ''s'', ''a'', Some 1) \<and>
   uncatsep from_chars_first_char ''a'' CHR ''s'' CHR ''x'' ''yz'' = (CHR ''s'', ''ayz'', None) \<and>
   from_chars_first_char (drop 1 ''a,'') CHR ''s'' = (CHR '','', Some 1) \<and>
   from_chars_first_char (drop (1 + 1) ''a,'') CHR ''y'' = (CHR ''y'', None) \<and>
   uncatsep from_chars_first_char ''a,'' CHR ''s'' CHR ''x'' ''yz'' = (CHR '','', ''ayz'', None) \<and>
   unformat from_chars_first_char ''a-'' ''{}-{}{}'' ''x'' = (''a'', Some 1) \<and>
   fmt_after ''{}-{}{}'' (length ''x'') = Some ''-{}{}'' \<and>
   find_fmt ''-{}{}'' = Some 1 \<and>
   unformat from_chars_first_char ''a-'' ''{}-{}{}'' ''xyz'' = (''ayz'', None)"
proof -
  have u1: "uncat from_chars_first_char ''a'' ''x'' = (''a'', Some 1)"
    by (simp add: from_chars_first_char_def)
  have u2: "from_chars_first_char (drop 1 ''a'') CHR ''y'' = (CHR ''y'', None)"
    by (simp add: from_chars_first_char_def)
  have s0: "from_chars_first_char [] CHR ''x'' = (CHR ''x'', None)"
    by (simp add: from_chars_first_char_def)
  have s1: "uncatsep from_chars_first_char ''a'' CHR ''s'' CHR ''x'' [] = (CHR ''s'', CHR ''a'' # [], Some 1)"
    by (simp add: uncatsep_def from_chars_first_char_def)
  have s2: "from_chars_first_char (drop 1 ''a'') CHR ''s'' = (CHR ''s'', None)"
    by (simp add: from_chars_first_char_def)
  have t1: "uncatsep from_chars_first_char ''a,'' CHR ''s'' CHR ''x'' [] = (CHR ''s'', CHR ''a'' # [], Some 1)"
    by (simp add: uncatsep_def from_chars_first_char_def)
  have t2: "from_chars_first_char (drop 1 ''a,'') CHR ''s'' = (CHR '','', Some 1)"
    by (simp add: from_chars_first_char_def)
  have t3: "from_chars_first_char (drop (1 + 1) ''a,'') CHR ''y'' = (CHR ''y'', None)"
    by (simp add: from_chars_first_char_def)
  have f1: "unformat from_chars_first_char ''a-'' ''{}-{}{}'' ''x'' = (''a'', Some 1)"
    by (simp add: from_chars_first_char_def)
  have f2: "fmt_after ''{}-{}{}'' (length ''x'') = Some ''-{}{}''"
    by simp
  have f3: "find_fmt ''-{}{}'' = Some 1"
    by simp
  have f4: "from_chars_first_char (drop (1 + 1) ''a-'') CHR ''y'' = (CHR ''y'', None)"
    by (simp add: from_chars_first_char_def)
  note th = parse_short_circuit [where fc = from_chars_first_char and post = "''z''"]
  have "uncat from_chars_first_char ''a'' (''x'' @ CHR ''y'' # ''z'') = (''a'' @ CHR ''y'' # ''z'', None)"
    using th [where buf = "''a''" and pre = "''x''" and a = "CHR ''y''"] u1 u2 by blast
  moreover have "uncatsep from_chars_first_char [] CHR ''s'' CHR ''x'' ''yz'' = (CHR ''s'', ''xyz'', None)"
    by (simp add: uncatsep_def from_chars_first_char_def)
  moreover have "uncatsep from_chars_first_char ''a'' CHR ''s'' CHR ''x'' ([] @ CHR ''y'' # ''z'')
      = (CHR ''s'', CHR ''a'' # [] @ CHR ''y'' # ''z'', None)"
    using th [where buf = "''a''" and pre = "[]" and a = "CHR ''y''" and sep = "CHR ''s''" and a0 = "CHR ''x''"]
      s1 s2 by blast
  moreover have "uncatsep from_chars_first_char ''a,'' CHR ''s'' CHR ''x'' ([] @ CHR ''y'' # ''z'')
      = (CHR '','', CHR ''a'' # [] @ CHR ''y'' # ''z'', None)"
    using th [where buf = "''a,''" and pre = "[]" and a = "CHR ''y''" and sep = "CHR ''s''" and a0 = "CHR ''x''"]
      t1 t2 t3 by blast
  moreover have "unformat from_chars_first_char ''a-'' ''{}-{}{}'' (''x'' @ CHR ''y'' # ''z'') = (''a'' @ CHR ''y'' # ''z'', None)"
    using th [where buf = "''a-''" and pre = "''x''" and a = "CHR ''y''" and fmt = "''{}-{}{}''"] f1 f2 f3 f4 by blast
  ultimately show ?thesis
    using u1 u2 s0 s1 t2 t3 f1 f2 f3 by (simp del: uncat.simps unformat.simps fmt_after.simps find_fmt.simps)
qed

section \<open>Literal text while parsing\<close>

lemma unformat_by_spans:
  "unformat fc buf fmt args = unformat_spans fc buf (spans fmt (length args)) args"
proof (induction args arbitrary: buf fmt)
  case Nil
  show ?case by simp
next
  case (Cons a args)
  show ?case
  proof (cases "find_fmt fmt")
    case None
    then show ?thesis by simp
  next
    case (Some pos)
    then show ?thesis
      using Cons.IH by (simp add: ac_simps split: prod.splits option.splits)
  qed
qed

text \<open>
  C7, as the claim states it, has only the placeholders consume input. With the
  template \<^verbatim>\<open>xy{}\<close> and the input \<^verbatim>\<open>ab7\<close>, the read at the placeholder consumes one
  character, and \<^verbatim>\<open>unformat\<close> returns 3: the literal span \<^verbatim>\<open>xy\<close> has consumed \<^verbatim>\<open>ab\<close>,
  which it does not match. With the template \<^verbatim>\<open>{}\<close> the same input does not parse.
\<close>

theorem unformat_literal_span_counterexample:
  "unformat from_chars_first_uint ''ab7'' ''xy{}'' [0] = ([7], Some 3) \<and>
   from_chars_first_uint ''7'' 0 = (7, Some 1) \<and>
   unformat from_chars_first_uint ''ab7'' ''{}'' [0] = ([0], None)"
  by (simp add: from_chars_first_uint_def is_digit_def atou_def)

text \<open>
  C7, amended. The literal spans of the template are never compared against the
  input. The span in front of each placeholder that has a variable consumes as many
  characters of the input as the span is long, whatever they are, and they count
  in the number \<^verbatim>\<open>unformat\<close> returns; template text after the last such placeholder
  consumes nothing. So the result is that of \<open>unformat_spans\<close> on the span lengths,
  and two templates whose spans have the same lengths parse every input alike.
\<close>

theorem unformat_skips_literal_spans:
  "unformat fc buf fmt args = unformat_spans fc buf (spans fmt (length args)) args \<and>
   (spans fmt (length args) = spans fmt' (length args) \<longrightarrow>
      unformat fc buf fmt args = unformat fc buf fmt' args)"
  by (simp add: unformat_by_spans)

theorem unformat_skips_literal_spans_witness:
  "spans ''xy{}'' (length [0::nat]) = spans ''??{} and more'' (length [0::nat]) \<and>
   unformat from_chars_first_uint ''ab7'' ''xy{}'' [0] = ([7], Some 3) \<and>
   unformat from_chars_first_uint ''ab7'' ''??{} and more'' [0] = ([7], Some 3)"
proof -
  have sp: "spans ''xy{}'' (length [0::nat]) = spans ''??{} and more'' (length [0::nat])"
    by simp
  have u: "unformat from_chars_first_uint ''ab7'' ''xy{}'' [0] = ([7], Some 3)"
    by (simp add: from_chars_first_uint_def is_digit_def atou_def)
  have "unformat from_chars_first_uint ''ab7'' ''xy{}'' [0]
      = unformat from_chars_first_uint ''ab7'' ''??{} and more'' [0]"
    using unformat_skips_literal_spans [of from_chars_first_uint "''ab7''" "''xy{}''" "[0]" "''??{} and more''"]
      sp by blast
  then show ?thesis
    using sp u by (simp del: unformat.simps spans.simps)
qed

lemma sub_result:
  assumes "exact_size f" and "output_of f = t"
  shows "snd (f m buf) = length t \<and>
    (let (m1, sz) = f m buf
     in if \<not> sz \<le> len buf \<and> \<not> h then Inl CheckFailed
        else Inr (m1, \<lparr>str = str buf, len = (if sz \<le> len buf then sz else len buf)\<rparr>))
    = (if length t \<le> len buf then Inr (fst (f m buf), \<lparr>str = str buf, len = length t\<rparr>)
       else if h then Inr (fst (f m buf), \<lparr>str = str buf, len = len buf\<rparr>)
       else Inl CheckFailed)"
  using snd_by_output [OF assms(1), of m buf] assms(2) by (simp add: case_prod_beta)

section \<open>Buffers that are too small\<close>

text \<open>
  C5, as the claim states it, has a buffer that is too small always show in a
  required size larger than its length. With one argument of \<open>2 ^ 64 - 1\<close>
  characters and one of 3, the sum of the sizes wraps around: on a buffer of
  length 5 \<^verbatim>\<open>cat\<close> writes nothing and returns 2, and \<^verbatim>\<open>cat_sub\<close> passes its check and
  returns a view of two bytes that were never written. And when the error handler
  behind \<^verbatim>\<open>C4_CHECK\<close> does not come back, \<^verbatim>\<open>cat_sub\<close> of \<^verbatim>\<open>abc\<close> into a buffer of length 2
  does not return normally.
\<close>

theorem sub_shapes_counterexample:
  "sizing_contract to_chars_fill \<and>
   cat to_chars_fill mem0 \<lparr>str = 0, len = 5\<rparr> [(2 ^ 64 - 1, CHR ''x''), (3, CHR ''y'')] = (mem0, 2) \<and>
   cat_sub True to_chars_fill mem0 \<lparr>str = 0, len = 5\<rparr> [(2 ^ 64 - 1, CHR ''x''), (3, CHR ''y'')]
     = Inr (mem0, \<lparr>str = 0, len = 2\<rparr>) \<and>
   cat_sub False to_chars_fill mem0 \<lparr>str = 0, len = 5\<rparr> [(2 ^ 64 - 1, CHR ''x''), (3, CHR ''y'')]
     = Inr (mem0, \<lparr>str = 0, len = 2\<rparr>) \<and>
   cat_sub False to_chars_arg mem0 \<lparr>str = 0, len = 2\<rparr> [Str ''abc''] = Inl CheckFailed"
proof -
  have c: "cat to_chars_fill mem0 \<lparr>str = 0, len = 5\<rparr> [(2 ^ 64 - 1, CHR ''x''), (3, CHR ''y'')]
      = (mem0, 2)"
    by (simp add: to_chars_fill_def size_t_wrap_def substr_null_def)
  have "cat_sub False to_chars_arg mem0 \<lparr>str = 0, len = 2\<rparr> [Str ''abc''] = Inl CheckFailed"
    by (simp add: cat_sub_def to_chars_arg_def to_chars_csubstr_def size_t_wrap_def)
  then show ?thesis
    using sizing_contract_to_chars_fill c by (simp add: cat_sub_def del: cat.simps)
qed

text \<open>
  C5, amended. Let \<^verbatim>\<open>to_chars\<close> satisfy the sizing contract and let the text to write
  be shorter than \<open>2 ^ 64\<close> characters. \<^verbatim>\<open>cat\<close>, \<^verbatim>\<open>catsep\<close> and \<^verbatim>\<open>format\<close> have no
  error to report: for every buffer they return the length \<open>R\<close> of the text, and a
  buffer that is too small shows only in \<open>R\<close> being larger than its length.
  \<^verbatim>\<open>cat_sub\<close>, \<^verbatim>\<open>catsep_sub\<close> and \<^verbatim>\<open>format_sub\<close> check the size with \<^verbatim>\<open>C4_CHECK\<close>: when
  the buffer holds \<open>R\<close> they return the view of its first \<open>R\<close> bytes; when it does
  not, the check fails, and they return the view of the whole buffer if the error
  handler comes back and do not return normally if it does not.
\<close>

theorem sub_shapes_check_size:
  assumes "sizing_contract tc"
  shows "(length (concat (map (written tc) args)) < 2 ^ 64 \<longrightarrow>
            snd (cat tc m buf args) = length (concat (map (written tc) args)) \<and>
            cat_sub h tc m buf args =
              (if length (concat (map (written tc) args)) \<le> len buf
               then Inr (fst (cat tc m buf args),
                         \<lparr>str = str buf, len = length (concat (map (written tc) args))\<rparr>)
               else if h then Inr (fst (cat tc m buf args), \<lparr>str = str buf, len = len buf\<rparr>)
               else Inl CheckFailed)) \<and>
         (length (written tc a @ concat (map (\<lambda>x. written tc sep @ written tc x) args)) < 2 ^ 64 \<longrightarrow>
            snd (catsep tc m buf sep a args)
              = length (written tc a @ concat (map (\<lambda>x. written tc sep @ written tc x) args)) \<and>
            catsep_sub h tc m buf sep a args =
              (if length (written tc a @ concat (map (\<lambda>x. written tc sep @ written tc x) args)) \<le> len buf
               then Inr (fst (catsep tc m buf sep a args),
                         \<lparr>str = str buf,
                            len = length (written tc a @ concat (map (\<lambda>x. written tc sep @ written tc x) args))\<rparr>)
               else if h then Inr (fst (catsep tc m buf sep a args), \<lparr>str = str buf, len = len buf\<rparr>)
               else Inl CheckFailed)) \<and>
         (length (format_text fmt (map (written tc) args)) < 2 ^ 64 \<longrightarrow>
            snd (format tc m buf fmt args) = length (format_text fmt (map (written tc) args)) \<and>
            format_sub h tc m buf fmt args =
              (if length (format_text fmt (map (written tc) args)) \<le> len buf
               then Inr (fst (format tc m buf fmt args),
                         \<lparr>str = str buf, len = length (format_text fmt (map (written tc) args))\<rparr>)
               else if h then Inr (fst (format tc m buf fmt args), \<lparr>str = str buf, len = len buf\<rparr>)
               else Inl CheckFailed))"
proof (intro conjI impI)
  assume b: "length (concat (map (written tc) args)) < 2 ^ 64"
  note r = sub_result [OF conjunct1 [OF cat_props [OF assms b]] conjunct2 [OF cat_props [OF assms b]],
      of m buf h]
  show "snd (cat tc m buf args) = length (concat (map (written tc) args))"
    using r by simp
  show "cat_sub h tc m buf args =
      (if length (concat (map (written tc) args)) \<le> len buf
       then Inr (fst (cat tc m buf args),
                 \<lparr>str = str buf, len = length (concat (map (written tc) args))\<rparr>)
       else if h then Inr (fst (cat tc m buf args), \<lparr>str = str buf, len = len buf\<rparr>)
       else Inl CheckFailed)"
    unfolding cat_sub_def using r by simp
next
  assume b: "length (written tc a @ concat (map (\<lambda>x. written tc sep @ written tc x) args)) < 2 ^ 64"
  note r = sub_result [OF conjunct1 [OF catsep_props [OF assms b]]
      conjunct2 [OF catsep_props [OF assms b]], of m buf h]
  show "snd (catsep tc m buf sep a args)
      = length (written tc a @ concat (map (\<lambda>x. written tc sep @ written tc x) args))"
    using r by simp
  show "catsep_sub h tc m buf sep a args =
      (if length (written tc a @ concat (map (\<lambda>x. written tc sep @ written tc x) args)) \<le> len buf
       then Inr (fst (catsep tc m buf sep a args),
                 \<lparr>str = str buf,
                    len = length (written tc a @ concat (map (\<lambda>x. written tc sep @ written tc x) args))\<rparr>)
       else if h then Inr (fst (catsep tc m buf sep a args), \<lparr>str = str buf, len = len buf\<rparr>)
       else Inl CheckFailed)"
    unfolding catsep_sub_def using r by simp
next
  assume b: "length (format_text fmt (map (written tc) args)) < 2 ^ 64"
  note r = sub_result [OF conjunct1 [OF format_props [OF assms b]]
      conjunct2 [OF format_props [OF assms b]], of m buf h]
  show "snd (format tc m buf fmt args) = length (format_text fmt (map (written tc) args))"
    using r by simp
  show "format_sub h tc m buf fmt args =
      (if length (format_text fmt (map (written tc) args)) \<le> len buf
       then Inr (fst (format tc m buf fmt args),
                 \<lparr>str = str buf, len = length (format_text fmt (map (written tc) args))\<rparr>)
       else if h then Inr (fst (format tc m buf fmt args), \<lparr>str = str buf, len = len buf\<rparr>)
       else Inl CheckFailed)"
    unfolding format_sub_def using r by simp
qed

theorem sub_shapes_check_size_witness:
  "sizing_contract to_chars_arg \<and>
   length (concat (map (written to_chars_arg) [Str ''ab'', Num 5])) < 2 ^ 64 \<and>
   snd (cat to_chars_arg mem0 \<lparr>str = 0, len = 2\<rparr> [Str ''ab'', Num 5]) = 3 \<and>
   cat_sub False to_chars_arg mem0 \<lparr>str = 0, len = 2\<rparr> [Str ''ab'', Num 5] = Inl CheckFailed \<and>
   cat_sub True to_chars_arg mem0 \<lparr>str = 0, len = 2\<rparr> [Str ''ab'', Num 5]
     = Inr (fst (cat to_chars_arg mem0 \<lparr>str = 0, len = 2\<rparr> [Str ''ab'', Num 5]), \<lparr>str = 0, len = 2\<rparr>) \<and>
   cat_sub False to_chars_arg mem0 \<lparr>str = 0, len = 3\<rparr> [Str ''ab'', Num 5]
     = Inr (fst (cat to_chars_arg mem0 \<lparr>str = 0, len = 3\<rparr> [Str ''ab'', Num 5]), \<lparr>str = 0, len = 3\<rparr>)"
proof -
  have b: "length (concat (map (written to_chars_arg) [Str ''ab'', Num 5])) < 2 ^ 64"
    by (simp add: written_to_chars_arg itoa_5)
  have l: "length (concat (map (written to_chars_arg) [Str ''ab'', Num 5])) = 3"
    by (simp add: written_to_chars_arg itoa_5)
  note th = sub_shapes_check_size [OF sizing_contract_to_chars_arg,
      where args = "[Str ''ab'', Num 5]" and m = mem0]
  show ?thesis
    using th [where buf = "\<lparr>str = 0, len = 2\<rparr>" and h = False]
      th [where buf = "\<lparr>str = 0, len = 2\<rparr>" and h = True]
      th [where buf = "\<lparr>str = 0, len = 3\<rparr>" and h = False]
      sizing_contract_to_chars_arg b
    unfolding l by (simp del: cat.simps)
qed

section \<open>The alignment of a raw wrapper\<close>

lemma nat_and_pred_zero:
  "0 < n \<Longrightarrow> n AND (n - 1) = 0 \<Longrightarrow> \<exists>k. n = 2 ^ k" for n :: nat
proof (induction n rule: less_induct)
  case (less n)
  show ?case
  proof (cases "even n")
    case True
    then obtain h where h: "n = 2 * h" by (auto elim: evenE)
    then have hpos: "0 < h" using less.prems(1) by simp
    have pred: "n - 1 = 2 * (h - 1) + 1" using h hpos by simp
    have "n AND (n - 1) = 2 * (h AND (h - 1))"
      unfolding pred unfolding h
      by (subst and_nat_rec) simp
    then have "h AND (h - 1) = 0" using less.prems(2) by simp
    moreover have "h < n" using h hpos by simp
    ultimately obtain k where "h = 2 ^ k" using less.IH hpos by blast
    then have "n = 2 ^ Suc k" using h by simp
    then show ?thesis by blast
  next
    case False
    then obtain h where h: "n = 2 * h + 1" by (auto elim: oddE)
    have "n AND (n - 1) = 2 * h"
      unfolding h by (subst and_nat_rec) simp
    then have "h = 0" using less.prems(2) by simp
    then have "n = 2 ^ 0" using h by simp
    then show ?thesis by blast
  qed
qed

lemma word_pow2_and_pred: "k < 64 \<Longrightarrow> (2 ^ k :: 64 word) AND (2 ^ k - 1) = 0"
  unfolding mask_eq_exp_minus_1 [symmetric] by (rule bit_eqI) (auto simp: bit_simps)

lemma word_and_pred_zero:
  fixes x :: "64 word"
  shows "0 < x \<and> x AND (x - 1) = 0 \<longleftrightarrow> (\<exists>k<64. x = 2 ^ k)"
proof
  assume a: "0 < x \<and> x AND (x - 1) = 0"
  then have nz: "x \<noteq> 0" by auto
  have "unat (x AND (x - 1)) = unat x AND (unat x - 1)"
    using nz by (simp add: unsigned_and_eq unat_minus_one)
  then have "unat x AND (unat x - 1) = 0" using a by simp
  moreover have "0 < unat x" using nz by (simp add: unat_gt_0)
  ultimately obtain k where k: "unat x = 2 ^ k"
    using nat_and_pred_zero by blast
  have "(2::nat) ^ k < 2 ^ LENGTH(64)"
    using unsigned_less [of x, where ?'a = nat] k by simp
  then have "k < LENGTH(64)"
    by (simp only: power_strict_increasing_iff one_less_numeral_iff semiring_norm)
  then have "k < 64" by simp
  moreover have "x = 2 ^ k"
  proof -
    have "(word_of_nat (unat x) :: 64 word) = word_of_nat (2 ^ k)"
      using k by simp
    then show ?thesis by simp
  qed
  ultimately show "\<exists>k<64. x = 2 ^ k" by blast
next
  assume "\<exists>k<64. x = 2 ^ k"
  then obtain k where k: "k < 64" "x = 2 ^ k" by blast
  have "x \<noteq> 0" using k by (simp add: exp_eq_zero_iff)
  then have "0 < x" by (simp add: word_neq_0_conv)
  then show "0 < x \<and> x AND (x - 1) = 0"
    using k word_pow2_and_pred by simp
qed

text \<open>
  C9. The constructor of \<^verbatim>\<open>raw_wrapper_\<close> (and so \<^verbatim>\<open>fmt::raw\<close> and \<^verbatim>\<open>fmt::craw\<close>) yields
  a wrapper exactly when the alignment is a power of two, which is never zero, and
  fails its assertion otherwise, for example for the alignment 3; every wrapper it
  yields holds a power of two. The constructor takes no store: it reads and writes
  no buffer.
\<close>

theorem raw_wrapper_alignment_power_of_two:
  "(raw_wrapper_ctor data al = Inr \<lparr>blob = data, alignment = al\<rparr> \<longleftrightarrow> (\<exists>k<64. al = 2 ^ k)) \<and>
   (raw_wrapper_ctor data al = Inl AssertFailed \<longleftrightarrow> \<not> (\<exists>k<64. al = 2 ^ k)) \<and>
   (raw data al = Inr w \<longrightarrow> (\<exists>k<64. alignment w = 2 ^ k)) \<and>
   (craw data al = Inr w \<longrightarrow> (\<exists>k<64. alignment w = 2 ^ k)) \<and>
   raw data 3 = Inl AssertFailed \<and> craw data 3 = Inl AssertFailed"
proof -
  have three: "\<not> (0 < (3 :: 64 word) \<and> (3 :: 64 word) AND (3 - 1) = 0)"
    by simp
  show ?thesis
    using word_and_pred_zero [of al] three
    by (auto simp: raw_wrapper_ctor_def raw_def craw_def)
qed

theorem raw_wrapper_alignment_power_of_two_witness:
  "raw (\<lparr>str = 0, len = 4\<rparr>) 8 = Inr \<lparr>blob = \<lparr>str = 0, len = 4\<rparr>, alignment = 8\<rparr> \<and>
   (\<exists>k<64. (8 :: 64 word) = 2 ^ k) \<and>
   raw (\<lparr>str = 0, len = 4\<rparr>) 3 = Inl AssertFailed \<and>
   raw (\<lparr>str = 0, len = 4\<rparr>) 0 = Inl AssertFailed"
proof -
  have r: "raw (\<lparr>str = 0, len = 4\<rparr>) 8 = Inr \<lparr>blob = \<lparr>str = 0, len = 4\<rparr>, alignment = 8\<rparr>"
    by (simp add: raw_def raw_wrapper_ctor_def)
  have z: "raw (\<lparr>str = 0, len = 4\<rparr>) 0 = Inl AssertFailed"
    by (simp add: raw_def raw_wrapper_ctor_def)
  have "\<exists>k<64. alignment \<lparr>blob = \<lparr>str = 0, len = 4\<rparr>, alignment = (8 :: 64 word)\<rparr> = 2 ^ k"
    using raw_wrapper_alignment_power_of_two
      [of "\<lparr>str = 0, len = 4\<rparr>" 8 "\<lparr>blob = \<lparr>str = 0, len = 4\<rparr>, alignment = 8\<rparr>"] r
    by blast
  then show ?thesis
    using r z raw_wrapper_alignment_power_of_two [of "\<lparr>str = 0, len = 4\<rparr>" 8]
    by simp
qed

section \<open>boolalpha\<close>

text \<open>
  C10. \<^verbatim>\<open>fmt::boolalpha(v)\<close> stores whether \<open>v\<close> is nonzero, for an integer \<open>v\<close> of any
  width, and \<^verbatim>\<open>to_chars\<close> of the wrapper is \<^verbatim>\<open>to_chars\<close> of the literal \<^verbatim>\<open>true\<close> when \<open>v\<close>
  is nonzero and of the literal \<^verbatim>\<open>false\<close> when it is zero: the text it produces is
  one of the two.
\<close>

theorem boolalpha_true_or_false:
  "val (boolalpha v strict) = (v \<noteq> 0) \<and>
   to_chars_boolalpha m buf (boolalpha v strict)
     = to_chars_csubstr m buf (if v \<noteq> 0 then ''true'' else ''false'') \<and>
   output_of (\<lambda>m buf. to_chars_boolalpha m buf (boolalpha v strict))
     = (if v \<noteq> 0 then ''true'' else ''false'')"
  by (simp add: boolalpha_def to_chars_boolalpha_def output_of_to_chars_csubstr)

theorem boolalpha_true_or_false_witness:
  "output_of (\<lambda>m buf. to_chars_boolalpha m buf (boolalpha (256 :: 16 word) False)) = ''true'' \<and>
   output_of (\<lambda>m buf. to_chars_boolalpha m buf (boolalpha (0 :: 8 word) True)) = ''false'' \<and>
   output_of (\<lambda>m buf. to_chars_boolalpha m buf (boolalpha (- 1 :: 64 word) False)) = ''true''"
  using boolalpha_true_or_false [of "256 :: 16 word" False]
    boolalpha_true_or_false [of "0 :: 8 word" True]
    boolalpha_true_or_false [of "- 1 :: 64 word" False]
  by (simp add: output_of_to_chars_csubstr)

end
